theory Spec2Isabelle
  imports Complex_Main
begin

section \<open>The countdown engine of App.jsx\<close>

text \<open>
  The component keeps two pieces of React state (\<open>isActive\<close>, \<open>timeRemaining\<close>) and three
  refs (\<open>timerEndRef\<close>, \<open>rafIdRef\<close>, \<open>intervalIdRef\<close>). The browser side is made explicit:
  the animation frame callbacks and interval callbacks that are still pending, the
  \<open>visibilitychange\<close> listener, the counter the browser takes handles from, and
  \<open>document.title\<close>. Times are \<open>Date.now()\<close> values, integers in milliseconds.

  A callback created by the countdown effect reads \<open>isActive\<close> and \<open>timeRemaining\<close> of the
  render that created it, not the live state; the captured pair travels with the pending
  callback.
\<close>

definition totalTime :: int where
  "totalTime = 25 * 60"

datatype closure = Closure (cIsActive: bool) (cTimeRemaining: int)

record app =
  isActive :: bool
  timeRemaining :: int
  timerEndRef :: "int option"
  rafIdRef :: "nat option"
  intervalIdRef :: "nat option"
  rafQueue :: "(nat \<times> closure) list"
  intervals :: "(nat \<times> closure) list"
  visibilityListener :: "closure option"
  nextHandle :: nat
  docTitle :: string

text \<open>JavaScript truthiness of a ref holding a handle or a timestamp: \<open>null\<close> and \<open>0\<close> are falsy.\<close>

definition truthy :: "nat option \<Rightarrow> bool" where
  "truthy r = (case r of None \<Rightarrow> False | Some h \<Rightarrow> h \<noteq> 0)"

definition truthyTime :: "int option \<Rightarrow> bool" where
  "truthyTime r = (case r of None \<Rightarrow> False | Some e \<Rightarrow> e \<noteq> 0)"

text \<open>\<open>null - now\<close> converts \<open>null\<close> to \<open>0\<close>.\<close>

definition toNumber :: "int option \<Rightarrow> int" where
  "toNumber r = (case r of None \<Rightarrow> 0 | Some e \<Rightarrow> e)"

text \<open>\<open>cancelAnimationFrame\<close> and \<open>clearInterval\<close>: a handle that names nothing is ignored.\<close>

definition cancelHandle :: "nat option \<Rightarrow> (nat \<times> closure) list \<Rightarrow> (nat \<times> closure) list" where
  "cancelHandle r q = (case r of None \<Rightarrow> q | Some h \<Rightarrow> filter (\<lambda>e. fst e \<noteq> h) q)"

text \<open>\<open>Math.ceil(remaining / 1000)\<close>.\<close>

definition ceilSeconds :: "int \<Rightarrow> int" where
  "ceilSeconds remaining = \<lceil>real_of_int remaining / 1000\<rceil>"

subsection \<open>Number formatting and the title\<close>

fun digitsOf :: "nat \<Rightarrow> string" where
  "digitsOf n = (if n < 10 then [''0123456789'' ! n]
                 else digitsOf (n div 10) @ [''0123456789'' ! (n mod 10)])"

text \<open>\<open>Number.prototype.toString\<close> on an integer.\<close>

definition toStringInt :: "int \<Rightarrow> string" where
  "toStringInt n = (if n < 0 then CHR ''-'' # digitsOf (nat (- n)) else digitsOf (nat n))"

definition padStart :: "nat \<Rightarrow> char \<Rightarrow> string \<Rightarrow> string" where
  "padStart n c s = replicate (n - length s) c @ s"

text \<open>The \<open>%\<close> of JavaScript takes the sign of the dividend.\<close>

definition jsRem :: "int \<Rightarrow> int \<Rightarrow> int" where
  "jsRem a b = sgn a * (\<bar>a\<bar> mod \<bar>b\<bar>)"

definition formatTime :: "int \<Rightarrow> string" where
  "formatTime seconds =
     (let mins = seconds div 60;
          secs = jsRem seconds 60
      in padStart 2 (CHR ''0'') (toStringInt mins) @ '':'' @ padStart 2 (CHR ''0'') (toStringInt secs))"

definition titleEffect :: "app \<Rightarrow> app" where
  "titleEffect w =
     (if \<not> isActive w \<and> timeRemaining w = 25 * 60 then w\<lparr>docTitle := ''Pomodoro Timer''\<rparr>
      else if \<not> isActive w then w\<lparr>docTitle := formatTime (timeRemaining w) @ '' - Paused''\<rparr>
      else w\<lparr>docTitle := formatTime (timeRemaining w) @ '' - Pomodoro''\<rparr>)"

subsection \<open>The handlers\<close>

definition updateTimer :: "closure \<Rightarrow> int \<Rightarrow> app \<Rightarrow> app" where
  "updateTimer c now w =
     (let remaining = max 0 (toNumber (timerEndRef w) - now);
          newRemainingSeconds = ceilSeconds remaining;
          w1 = (if newRemainingSeconds \<noteq> cTimeRemaining c
                then w\<lparr>timeRemaining := newRemainingSeconds\<rparr> else w)
      in if newRemainingSeconds \<le> 0 then
           (let w2 = w1\<lparr>isActive := False, timerEndRef := None,
                         rafQueue := cancelHandle (rafIdRef w1) (rafQueue w1),
                         rafIdRef := None\<rparr>
            in if truthy (intervalIdRef w2)
               then w2\<lparr>intervals := cancelHandle (intervalIdRef w2) (intervals w2),
                        intervalIdRef := None\<rparr>
               else w2)
         else w1)"

text \<open>
  \<open>rafLoop\<close> runs as an animation frame callback; the browser has taken it off the queue
  before the call. The test that re-arms it reads the captured values.
\<close>

definition rafLoop :: "closure \<Rightarrow> int \<Rightarrow> app \<Rightarrow> app" where
  "rafLoop c now w =
     (let w1 = updateTimer c now w
      in if cIsActive c \<and> cTimeRemaining c > 0
         then w1\<lparr>rafIdRef := Some (nextHandle w1),
                  rafQueue := rafQueue w1 @ [(nextHandle w1, c)],
                  nextHandle := nextHandle w1 + 1\<rparr>
         else w1)"

definition startTimer :: "int \<Rightarrow> app \<Rightarrow> app" where
  "startTimer now w = w\<lparr>timerEndRef := Some (now + timeRemaining w * 1000), isActive := True\<rparr>"

definition pauseTimer :: "app \<Rightarrow> app" where
  "pauseTimer w = w\<lparr>isActive := False\<rparr>"

definition resetTimer :: "app \<Rightarrow> app" where
  "resetTimer w = w\<lparr>isActive := False, timeRemaining := 25 * 60, timerEndRef := None\<rparr>"

subsection \<open>The countdown effect\<close>

text \<open>
  The effect depends on \<open>[isActive, timeRemaining]\<close>. When it runs again React first calls
  the clean-up function the previous run returned (which also removes the visibility
  listener), then the body, which starts by cancelling what the refs name.
\<close>

definition cancelTimers :: "app \<Rightarrow> app" where
  "cancelTimers w =
     (let w1 = (if truthy (rafIdRef w)
                then w\<lparr>rafQueue := cancelHandle (rafIdRef w) (rafQueue w), rafIdRef := None\<rparr>
                else w)
      in if truthy (intervalIdRef w1)
         then w1\<lparr>intervals := cancelHandle (intervalIdRef w1) (intervals w1), intervalIdRef := None\<rparr>
         else w1)"

definition countdownEffect :: "int \<Rightarrow> app \<Rightarrow> app" where
  "countdownEffect now w =
     (let w1 = (cancelTimers w)\<lparr>visibilityListener := None\<rparr>;
          w2 = cancelTimers w1
      in if isActive w2 \<and> timeRemaining w2 > 0 then
           (let w3 = (if \<not> truthyTime (timerEndRef w2)
                      then w2\<lparr>timerEndRef := Some (now + timeRemaining w2 * 1000)\<rparr> else w2);
                c = Closure (isActive w3) (timeRemaining w3);
                w4 = w3\<lparr>rafIdRef := Some (nextHandle w3),
                        rafQueue := rafQueue w3 @ [(nextHandle w3, c)],
                        nextHandle := nextHandle w3 + 1\<rparr>;
                w5 = w4\<lparr>intervalIdRef := Some (nextHandle w4),
                        intervals := intervals w4 @ [(nextHandle w4, c)],
                        nextHandle := nextHandle w4 + 1\<rparr>
            in w5\<lparr>visibilityListener := Some c\<rparr>)
         else w2)"

text \<open>
  A handler runs to its end, then React commits: the effects whose dependencies changed
  run before the browser delivers the next callback.
\<close>

definition commit :: "int \<Rightarrow> app \<Rightarrow> app \<Rightarrow> app" where
  "commit now old new =
     (if isActive new = isActive old \<and> timeRemaining new = timeRemaining old then new
      else countdownEffect now (titleEffect new))"

definition initial :: app where
  "initial = \<lparr>isActive = False, timeRemaining = 25 * 60, timerEndRef = None,
              rafIdRef = None, intervalIdRef = None, rafQueue = [], intervals = [],
              visibilityListener = None, nextHandle = 1, docTitle = []\<rparr>"

definition mount :: "int \<Rightarrow> app" where
  "mount now = countdownEffect now (titleEffect initial)"

subsection \<open>Events\<close>

datatype action = Start | Pause | Reset | RafFrame | IntervalFire | BecameVisible

type_synonym event = "int \<times> action"

fun step :: "event \<Rightarrow> app \<Rightarrow> app" where
  "step (now, Start) w = commit now w (startTimer now w)"
| "step (now, Pause) w = commit now w (pauseTimer w)"
| "step (now, Reset) w = commit now w (resetTimer w)"
| "step (now, RafFrame) w =
     (case rafQueue w of [] \<Rightarrow> w
      | (h, c) # q \<Rightarrow> commit now w (rafLoop c now (w\<lparr>rafQueue := q\<rparr>)))"
| "step (now, IntervalFire) w =
     (case intervals w of [] \<Rightarrow> w
      | (i, c) # q \<Rightarrow> commit now w (updateTimer c now w))"
| "step (now, BecameVisible) w =
     (case visibilityListener w of None \<Rightarrow> w
      | Some c \<Rightarrow> commit now w (updateTimer c now w))"

fun run :: "event list \<Rightarrow> app \<Rightarrow> app" where
  "run [] w = w"
| "run (e # es) w = run es (step e w)"

fun isTick :: "action \<Rightarrow> bool" where
  "isTick RafFrame = True"
| "isTick IntervalFire = True"
| "isTick BecameVisible = True"
| "isTick _ = False"

subsection \<open>Invariants of the event loop\<close>

text \<open>
  \<open>consistent\<close>: callbacks are pending exactly while the timer is active with time left,
  one of each kind, named by the refs and holding the current \<open>timeRemaining\<close>.
  \<open>tracked\<close>: whatever is pending is named by the refs (it holds in the middle of a
  handler too).
\<close>

definition consistent :: "app \<Rightarrow> bool" where
  "consistent w =
     (0 \<le> timeRemaining w \<and> 0 < nextHandle w \<and>
      (if isActive w \<and> 0 < timeRemaining w then
         (case rafIdRef w of None \<Rightarrow> False
          | Some h \<Rightarrow>
             (case intervalIdRef w of None \<Rightarrow> False
              | Some i \<Rightarrow>
                  0 < h \<and> 0 < i \<and>
                  rafQueue w = [(h, Closure True (timeRemaining w))] \<and>
                  intervals w = [(i, Closure True (timeRemaining w))] \<and>
                  visibilityListener w = Some (Closure True (timeRemaining w))))
       else rafIdRef w = None \<and> intervalIdRef w = None \<and> rafQueue w = [] \<and>
            intervals w = [] \<and> visibilityListener w = None))"

definition tracked :: "app \<Rightarrow> bool" where
  "tracked w =
     ((case rafIdRef w of None \<Rightarrow> rafQueue w = []
       | Some h \<Rightarrow> 0 < h \<and> (rafQueue w = [] \<or> (\<exists>c. rafQueue w = [(h, c)]))) \<and>
      (case intervalIdRef w of None \<Rightarrow> intervals w = []
       | Some i \<Rightarrow> 0 < i \<and> (intervals w = [] \<or> (\<exists>c. intervals w = [(i, c)]))))"

text \<open>
  A list of timer callbacks (animation frame, interval, visibility change) at times that
  never go back, all between \<open>t\<close> and \<open>T\<close>.
\<close>

fun ticksWithin :: "int \<Rightarrow> int \<Rightarrow> event list \<Rightarrow> bool" where
  "ticksWithin t T [] = (t \<le> T)"
| "ticksWithin t T ((t', a) # es) = (t \<le> t' \<and> isTick a \<and> ticksWithin t' T es)"

text \<open>Events of any kind but \<open>Reset\<close>; events of any kind at times that never go back.\<close>

fun noReset :: "event list \<Rightarrow> bool" where
  "noReset [] = True"
| "noReset ((t, a) # es) = (a \<noteq> Reset \<and> noReset es)"

fun clockForward :: "int \<Rightarrow> event list \<Rightarrow> bool" where
  "clockForward t [] = True"
| "clockForward t ((t', a) # es) = (t \<le> t' \<and> clockForward t' es)"

text \<open>
  \<open>withinSession t\<close>: the value is at most the session length and, while the countdown runs,
  the deadline is at most \<open>timeRemaining\<close> seconds after \<open>t\<close>.
\<close>

definition withinSession :: "int \<Rightarrow> app \<Rightarrow> bool" where
  "withinSession t s =
     (timeRemaining s \<le> totalTime \<and>
      (if isActive s \<and> 0 < timeRemaining s
       then toNumber (timerEndRef s) \<le> t + 1000 * timeRemaining s else True))"

text \<open>
  The title as the specification words it: a fixed label in the pristine state, otherwise
  minutes and seconds, each zero-padded to two digits, and the state's name.
\<close>

definition twoDigits :: "nat \<Rightarrow> string" where
  "twoDigits n = [''0123456789'' ! (n div 10), ''0123456789'' ! (n mod 10)]"

definition mmss :: "int \<Rightarrow> string" where
  "mmss r = (if r div 60 < 100 then twoDigits (nat (r div 60)) else digitsOf (nat (r div 60)))
              @ '':'' @ twoDigits (nat (r mod 60))"

definition titleSpec :: "bool \<Rightarrow> int \<Rightarrow> string" where
  "titleSpec running r =
     (if \<not> running \<and> r = totalTime then ''Pomodoro Timer''
      else if \<not> running then mmss r @ '' - Paused''
      else mmss r @ '' - Pomodoro'')"

section \<open>The clip path of the progress indicator\<close>

text \<open>
  \<open>progress = 1 - timeRemaining / totalTime\<close>. \<open>getProgressClipPath\<close> builds the text of a CSS
  polygon with seven vertices, in percent of the element's box (x from the left, y from the
  top). The model keeps each vertex as a pair of numbers and computes over the reals, where
  the code computes over doubles.
\<close>

definition progressOf :: "int \<Rightarrow> real" where
  "progressOf remaining = 1 - real_of_int remaining / real_of_int totalTime"

definition getProgressClipPath :: "real \<Rightarrow> (real \<times> real) list" where
  "getProgressClipPath progress =
     [(50, 50),
      (50, 0),
      (if progress > 0.125 then (100, 0) else (50 + 50 * tan (progress * 2 * pi), 0)),
      (if progress > 0.375 then (100, 100)
       else if progress > 0.125 then (100, 50 - 50 * tan ((progress - 0.25) * 2 * pi))
       else (50, 50)),
      (if progress > 0.625 then (0, 100)
       else if progress > 0.375 then (50 - 50 * tan ((progress - 0.5) * 2 * pi), 100)
       else (50, 50)),
      (if progress > 0.875 then (0, 0)
       else if progress > 0.625 then (0, 50 + 50 * tan ((progress - 0.75) * 2 * pi))
       else (50, 50)),
      (if progress > 0.875 then (50 - 50 * tan ((progress - 1) * 2 * pi), 0) else (50, 50))]"

text \<open>The area a closed polygon encloses, by the surveyor's formula.\<close>

fun crossSum :: "(real \<times> real) list \<Rightarrow> real" where
  "crossSum (p # q # ps) = (fst p * snd q - fst q * snd p) + crossSum (q # ps)"
| "crossSum ps = 0"

definition polygonArea :: "(real \<times> real) list \<Rightarrow> real" where
  "polygonArea vs = (case vs of [] \<Rightarrow> 0 | v # rest \<Rightarrow> \<bar>crossSum (vs @ [v])\<bar> / 2)"

section \<open>Installing the favicon\<close>

text \<open>
  The document as the favicon effect sees it: the \<open>link\<close> elements that are children of
  \<open>head\<close>, in order, and the \<open>link\<close> elements anywhere else, which follow them in document
  order. A link has its \<open>rel\<close>, \<open>href\<close> and \<open>sizes\<close> (empty when never set).
\<close>

datatype link = Link (rel: string) (href: string) (sizes: string)

record document =
  headLinks :: "link list"
  otherLinks :: "link list"

text \<open>
  The selector \<open>link[rel*='icon']\<close>: the value of \<open>rel\<close> contains \<open>icon\<close>. In an HTML document
  the value of \<open>rel\<close> is compared without regard to ASCII case.
\<close>

definition asciiLower :: "char \<Rightarrow> char" where
  "asciiLower c = (if 65 \<le> (of_char c :: nat) \<and> (of_char c :: nat) \<le> 90
                   then char_of ((of_char c :: nat) + 32) else c)"

fun startsWith :: "string \<Rightarrow> string \<Rightarrow> bool" where
  "startsWith [] s = True"
| "startsWith (p # ps) [] = False"
| "startsWith (p # ps) (c # cs) = (p = c \<and> startsWith ps cs)"

fun containsStr :: "string \<Rightarrow> string \<Rightarrow> bool" where
  "containsStr p [] = (p = [])"
| "containsStr p (c # cs) = (startsWith p (c # cs) \<or> containsStr p cs)"

definition matchesIcon :: "link \<Rightarrow> bool" where
  "matchesIcon l = containsStr ''icon'' (map asciiLower (rel l))"

text \<open>
  \<open>createDonutTimerDataURL\<close> draws on a canvas and returns a data URL; it is a parameter
  \<open>draw\<close> here, \<open>None\<close> when the drawing throws (no 2D context). \<open>removeChild\<close> throws for a
  link that is not a child of \<open>head\<close>, after the links of \<open>head\<close> before it were removed. The
  \<open>catch\<close> logs the error and the attempt ends there.
\<close>

definition updateFaviconInBrowser ::
    "(bool \<Rightarrow> real \<Rightarrow> nat \<Rightarrow> string option) \<Rightarrow> bool \<Rightarrow> real \<Rightarrow> document \<Rightarrow> document" where
  "updateFaviconInBrowser draw isActive' progress doc =
     (case draw isActive' progress 32 of
        None \<Rightarrow> doc
      | Some favicon32 \<Rightarrow>
          (case draw isActive' progress 16 of
             None \<Rightarrow> doc
           | Some favicon16 \<Rightarrow>
               (let removed = doc\<lparr>headLinks := filter (\<lambda>l. \<not> matchesIcon l) (headLinks doc)\<rparr>
                in if list_ex matchesIcon (otherLinks doc) then removed
                   else removed\<lparr>headLinks := headLinks removed @
                          [Link ''icon'' favicon32 ''32x32'',
                           Link ''icon'' favicon16 ''16x16'',
                           Link ''shortcut icon'' favicon32 '''']\<rparr>)))"

text \<open>
  The favicon effect calls \<open>updateFaviconInBrowser\<close> at once and again from two timeouts,
  after 100 and 500 milliseconds: the documents after each of the three attempts.
\<close>

definition faviconAttempts ::
    "(bool \<Rightarrow> real \<Rightarrow> nat \<Rightarrow> string option) \<Rightarrow> bool \<Rightarrow> real \<Rightarrow> document \<Rightarrow> document list" where
  "faviconAttempts draw isActive' progress doc =
     (let d1 = updateFaviconInBrowser draw isActive' progress doc;
          d2 = updateFaviconInBrowser draw isActive' progress d1;
          d3 = updateFaviconInBrowser draw isActive' progress d2
      in [d1, d2, d3])"

section \<open>Lemmas\<close>

subsection \<open>The event loop keeps its invariants\<close>

declare digitsOf.simps [simp del]

lemma ceilSeconds_div [code]: "ceilSeconds x = - ((- x) div 1000)"
  unfolding ceilSeconds_def using ceiling_divide_eq_div [of x 1000] by simp

lemma consistent_iff:
  "consistent w \<longleftrightarrow>
     0 \<le> timeRemaining w \<and> 0 < nextHandle w \<and>
     (if isActive w \<and> 0 < timeRemaining w
      then \<exists>h i. 0 < h \<and> 0 < i \<and> rafIdRef w = Some h \<and> intervalIdRef w = Some i \<and>
             rafQueue w = [(h, Closure True (timeRemaining w))] \<and>
             intervals w = [(i, Closure True (timeRemaining w))] \<and>
             visibilityListener w = Some (Closure True (timeRemaining w))
      else rafIdRef w = None \<and> intervalIdRef w = None \<and> rafQueue w = [] \<and>
           intervals w = [] \<and> visibilityListener w = None)"
  by (auto simp: consistent_def split: option.splits)

lemma ceilSeconds_nonneg: "0 \<le> x \<Longrightarrow> 0 \<le> ceilSeconds x"
  unfolding ceilSeconds_div by linarith

lemma consistent_tracked: "consistent w \<Longrightarrow> tracked w"
  by (auto simp: consistent_iff tracked_def split: option.splits if_splits)

lemma cancelTimers_fields [simp]:
  "isActive (cancelTimers w) = isActive w"
  "timeRemaining (cancelTimers w) = timeRemaining w"
  "timerEndRef (cancelTimers w) = timerEndRef w"
  "nextHandle (cancelTimers w) = nextHandle w"
  "docTitle (cancelTimers w) = docTitle w"
  "visibilityListener (cancelTimers w) = visibilityListener w"
  by (simp_all add: cancelTimers_def Let_def)

lemma cancelTimers_tracked:
  assumes "tracked w"
  shows "rafQueue (cancelTimers w) = []" "intervals (cancelTimers w) = []"
    "rafIdRef (cancelTimers w) = None" "intervalIdRef (cancelTimers w) = None"
  using assms
  by (auto simp: tracked_def cancelTimers_def Let_def truthy_def cancelHandle_def
      split: option.splits)

lemma titleEffect_fields [simp]:
  "isActive (titleEffect w) = isActive w"
  "timeRemaining (titleEffect w) = timeRemaining w"
  "timerEndRef (titleEffect w) = timerEndRef w"
  "nextHandle (titleEffect w) = nextHandle w"
  "rafIdRef (titleEffect w) = rafIdRef w"
  "intervalIdRef (titleEffect w) = intervalIdRef w"
  "rafQueue (titleEffect w) = rafQueue w"
  "intervals (titleEffect w) = intervals w"
  "visibilityListener (titleEffect w) = visibilityListener w"
  by (simp_all add: titleEffect_def)

lemma countdownEffect_fields [simp]:
  "isActive (countdownEffect now w) = isActive w"
  "timeRemaining (countdownEffect now w) = timeRemaining w"
  "docTitle (countdownEffect now w) = docTitle w"
  "timerEndRef (countdownEffect now w) =
     (if isActive w \<and> 0 < timeRemaining w \<and> \<not> truthyTime (timerEndRef w)
      then Some (now + timeRemaining w * 1000) else timerEndRef w)"
  by (simp_all add: countdownEffect_def Let_def)

lemma countdownEffect_tracked:
  assumes "tracked w"
  shows "rafIdRef (countdownEffect now w) =
           (if isActive w \<and> 0 < timeRemaining w then Some (nextHandle w) else None)"
    "intervalIdRef (countdownEffect now w) =
           (if isActive w \<and> 0 < timeRemaining w then Some (nextHandle w + 1) else None)"
    "rafQueue (countdownEffect now w) =
           (if isActive w \<and> 0 < timeRemaining w
            then [(nextHandle w, Closure True (timeRemaining w))] else [])"
    "intervals (countdownEffect now w) =
           (if isActive w \<and> 0 < timeRemaining w
            then [(nextHandle w + 1, Closure True (timeRemaining w))] else [])"
    "visibilityListener (countdownEffect now w) =
           (if isActive w \<and> 0 < timeRemaining w
            then Some (Closure True (timeRemaining w)) else None)"
    "nextHandle (countdownEffect now w) =
           (if isActive w \<and> 0 < timeRemaining w then nextHandle w + 2 else nextHandle w)"
proof -
  have t1: "tracked ((cancelTimers w)\<lparr>visibilityListener := None\<rparr>)"
    using assms cancelTimers_tracked [OF assms] by (simp add: tracked_def)
  note c1 = cancelTimers_tracked [OF t1]
  show "rafIdRef (countdownEffect now w) =
           (if isActive w \<and> 0 < timeRemaining w then Some (nextHandle w) else None)"
    by (simp add: countdownEffect_def Let_def c1)
  show "intervalIdRef (countdownEffect now w) =
           (if isActive w \<and> 0 < timeRemaining w then Some (nextHandle w + 1) else None)"
    by (simp add: countdownEffect_def Let_def c1)
  show "rafQueue (countdownEffect now w) =
           (if isActive w \<and> 0 < timeRemaining w
            then [(nextHandle w, Closure True (timeRemaining w))] else [])"
    by (simp add: countdownEffect_def Let_def c1)
  show "intervals (countdownEffect now w) =
           (if isActive w \<and> 0 < timeRemaining w
            then [(nextHandle w + 1, Closure True (timeRemaining w))] else [])"
    by (simp add: countdownEffect_def Let_def c1)
  show "visibilityListener (countdownEffect now w) =
           (if isActive w \<and> 0 < timeRemaining w
            then Some (Closure True (timeRemaining w)) else None)"
    by (simp add: countdownEffect_def Let_def c1)
  show "nextHandle (countdownEffect now w) =
           (if isActive w \<and> 0 < timeRemaining w then nextHandle w + 2 else nextHandle w)"
    by (simp add: countdownEffect_def Let_def c1)
qed

lemma consistent_countdownEffect:
  assumes "tracked w" "0 \<le> timeRemaining w" "0 < nextHandle w"
  shows "consistent (countdownEffect now w)"
  using assms(2,3) by (simp add: consistent_iff countdownEffect_tracked [OF assms(1)])

lemma tracked_titleEffect: "tracked (titleEffect w) = tracked w"
  by (simp add: tracked_def split: option.splits)

lemma consistent_commit:
  assumes "tracked new" "0 \<le> timeRemaining new" "0 < nextHandle new"
    and "isActive new = isActive old \<Longrightarrow> timeRemaining new = timeRemaining old \<Longrightarrow> consistent new"
  shows "consistent (commit now old new)"
proof (cases "isActive new = isActive old \<and> timeRemaining new = timeRemaining old")
  case True
  then have "consistent new" using assms(4) by blast
  with True show ?thesis by (simp add: commit_def)

next
  case False
  have "consistent (countdownEffect now (titleEffect new))"
    by (rule consistent_countdownEffect) (simp_all add: tracked_titleEffect assms)
  with False show ?thesis by (auto simp: commit_def)
qed

lemma updateTimer_fields:
  "nextHandle (updateTimer c now w) = nextHandle w"
  "docTitle (updateTimer c now w) = docTitle w"
  "visibilityListener (updateTimer c now w) = visibilityListener w"
  by (simp_all add: updateTimer_def Let_def)

lemma updateTimer_state:
  "timeRemaining (updateTimer c now w) =
     (if ceilSeconds (max 0 (toNumber (timerEndRef w) - now)) \<noteq> cTimeRemaining c
      then ceilSeconds (max 0 (toNumber (timerEndRef w) - now)) else timeRemaining w)"
  "isActive (updateTimer c now w) =
     (if ceilSeconds (max 0 (toNumber (timerEndRef w) - now)) \<le> 0 then False else isActive w)"
  "timerEndRef (updateTimer c now w) =
     (if ceilSeconds (max 0 (toNumber (timerEndRef w) - now)) \<le> 0 then None else timerEndRef w)"
  by (simp_all add: updateTimer_def Let_def)

lemma tracked_updateTimer: "tracked w \<Longrightarrow> tracked (updateTimer c now w)"
  by (auto simp: tracked_def updateTimer_def Let_def truthy_def cancelHandle_def
      split: option.splits)

lemma updateTimer_nonneg:
  "0 \<le> timeRemaining w \<Longrightarrow> 0 \<le> timeRemaining (updateTimer c now w)"
  by (simp add: updateTimer_state ceilSeconds_nonneg)

lemma commit_fields [simp]:
  "isActive (commit now old new) = isActive new"
  "timeRemaining (commit now old new) = timeRemaining new"
  "timerEndRef (commit now old new) =
     (if (isActive new \<noteq> isActive old \<or> timeRemaining new \<noteq> timeRemaining old) \<and>
         isActive new \<and> 0 < timeRemaining new \<and> \<not> truthyTime (timerEndRef new)
      then Some (now + timeRemaining new * 1000) else timerEndRef new)"
  by (auto simp: commit_def)

lemma updateTimer_running:
  assumes "0 < ceilSeconds (max 0 (toNumber (timerEndRef w) - now))"
  shows "updateTimer c now w =
     w\<lparr>timeRemaining :=
         (if ceilSeconds (max 0 (toNumber (timerEndRef w) - now)) \<noteq> cTimeRemaining c
          then ceilSeconds (max 0 (toNumber (timerEndRef w) - now)) else timeRemaining w)\<rparr>"
  using assms by (simp add: updateTimer_def Let_def)

lemma updateTimer_unchanged:
  assumes "isActive w" "cTimeRemaining c = timeRemaining w"
    and "isActive (updateTimer c now w) = isActive w"
    and "timeRemaining (updateTimer c now w) = timeRemaining w"
  shows "updateTimer c now w = w"
proof -
  have pos: "0 < ceilSeconds (max 0 (toNumber (timerEndRef w) - now))"
    using assms(1,3) by (simp add: updateTimer_state split: if_splits)
  show ?thesis
    using assms(2,4) by (simp add: updateTimer_running [OF pos] split: if_splits)
qed

lemma consistent_start: "consistent w \<Longrightarrow> consistent (step (now, Start) w)"
proof -
  assume c: "consistent w"
  have t: "tracked (startTimer now w)"
    using consistent_tracked [OF c] by (simp add: tracked_def startTimer_def split: option.splits)
  show ?thesis
    unfolding step.simps
  proof (rule consistent_commit [OF t])
    show "0 \<le> timeRemaining (startTimer now w)" "0 < nextHandle (startTimer now w)"
      using c by (simp_all add: consistent_iff startTimer_def)
    show "consistent (startTimer now w)"
      if "isActive (startTimer now w) = isActive w"
      using c that by (auto simp: consistent_iff startTimer_def split: if_splits)
  qed
qed

lemma consistent_pause: "consistent w \<Longrightarrow> consistent (step (now, Pause) w)"
proof -
  assume c: "consistent w"
  have t: "tracked (pauseTimer w)"
    using consistent_tracked [OF c] by (simp add: tracked_def pauseTimer_def split: option.splits)
  show ?thesis
    unfolding step.simps
  proof (rule consistent_commit [OF t])
    show "0 \<le> timeRemaining (pauseTimer w)" "0 < nextHandle (pauseTimer w)"
      using c by (simp_all add: consistent_iff pauseTimer_def)
    show "consistent (pauseTimer w)"
      if "isActive (pauseTimer w) = isActive w"
      using c that by (auto simp: consistent_iff pauseTimer_def split: if_splits)
  qed
qed

lemma consistent_reset: "consistent w \<Longrightarrow> consistent (step (now, Reset) w)"
proof -
  assume c: "consistent w"
  have t: "tracked (resetTimer w)"
    using consistent_tracked [OF c] by (simp add: tracked_def resetTimer_def split: option.splits)
  show ?thesis
    unfolding step.simps
  proof (rule consistent_commit [OF t])
    show "0 \<le> timeRemaining (resetTimer w)" "0 < nextHandle (resetTimer w)"
      using c by (simp_all add: consistent_iff resetTimer_def)
    show "consistent (resetTimer w)"
      if "isActive (resetTimer w) = isActive w"
        and "timeRemaining (resetTimer w) = timeRemaining w"
      using c that by (auto simp: consistent_iff resetTimer_def split: if_splits)
  qed
qed

lemma consistent_armed:
  assumes "consistent w"
    and "rafQueue w \<noteq> [] \<or> intervals w \<noteq> [] \<or> visibilityListener w \<noteq> None"
  shows "isActive w" "0 < timeRemaining w"
    "\<exists>h. 0 < h \<and> rafIdRef w = Some h \<and> rafQueue w = [(h, Closure True (timeRemaining w))]"
    "\<exists>i. 0 < i \<and> intervalIdRef w = Some i \<and> intervals w = [(i, Closure True (timeRemaining w))]"
    "visibilityListener w = Some (Closure True (timeRemaining w))"
  using assms by (auto simp: consistent_iff split: if_splits option.splits)

lemma consistent_updateTimer:
  assumes c: "consistent w" and a: "isActive w" "cl = Closure True (timeRemaining w)"
  shows "consistent (commit now w (updateTimer cl now w))"
proof (rule consistent_commit)
  show "tracked (updateTimer cl now w)"
    by (rule tracked_updateTimer [OF consistent_tracked [OF c]])
  show "0 \<le> timeRemaining (updateTimer cl now w)"
    using c by (simp add: updateTimer_nonneg consistent_iff)
  show "0 < nextHandle (updateTimer cl now w)"
    using c by (simp add: updateTimer_fields consistent_iff)
  show "consistent (updateTimer cl now w)"
    if "isActive (updateTimer cl now w) = isActive w"
      and "timeRemaining (updateTimer cl now w) = timeRemaining w"
    using updateTimer_unchanged [OF a(1) _ that] a(2) c by simp
qed

lemma consistent_interval: "consistent w \<Longrightarrow> consistent (step (now, IntervalFire) w)"
proof (cases "intervals w")
  case Nil
  assume "consistent w"
  with Nil show ?thesis by simp
next
  case (Cons e q)
  assume c: "consistent w"
  have ne: "rafQueue w \<noteq> [] \<or> intervals w \<noteq> [] \<or> visibilityListener w \<noteq> None"
    using Cons by simp
  from consistent_armed [OF c ne] Cons
  have a: "isActive w" and e: "snd e = Closure True (timeRemaining w)"
    by auto
  show ?thesis
    using Cons e consistent_updateTimer [OF c a, of "snd e" now]
    by (cases e) simp
qed

lemma consistent_visible: "consistent w \<Longrightarrow> consistent (step (now, BecameVisible) w)"
proof (cases "visibilityListener w")
  case None
  assume "consistent w"
  with None show ?thesis by simp
next
  case (Some cl)
  assume c: "consistent w"
  have ne: "rafQueue w \<noteq> [] \<or> intervals w \<noteq> [] \<or> visibilityListener w \<noteq> None"
    using Some by simp
  from consistent_armed [OF c ne] Some
  have a: "isActive w" and e: "cl = Closure True (timeRemaining w)"
    by auto
  show ?thesis
    using Some consistent_updateTimer [OF c a e, of now] by simp
qed

lemma rafLoop_fields [simp]:
  "isActive (rafLoop c now w) = isActive (updateTimer c now w)"
  "timeRemaining (rafLoop c now w) = timeRemaining (updateTimer c now w)"
  "timerEndRef (rafLoop c now w) = timerEndRef (updateTimer c now w)"
  "docTitle (rafLoop c now w) = docTitle w"
  by (simp_all add: rafLoop_def Let_def updateTimer_fields)

lemma updateTimer_rafQueue_empty:
  "rafQueue w = [] \<Longrightarrow> rafQueue (updateTimer c now w) = []"
  by (simp add: updateTimer_def Let_def cancelHandle_def split: option.splits)

lemma tracked_rafLoop:
  assumes "tracked w" "rafQueue w = []" "0 < nextHandle w"
  shows "tracked (rafLoop c now w)"
proof -
  have u: "tracked (updateTimer c now w)" "rafQueue (updateTimer c now w) = []"
    using assms by (simp_all add: tracked_updateTimer updateTimer_rafQueue_empty)
  show ?thesis
    using u assms(3)
    by (simp add: rafLoop_def Let_def tracked_def updateTimer_fields split: option.splits)
qed

lemma consistent_raf: "consistent w \<Longrightarrow> consistent (step (now, RafFrame) w)"
proof (cases "rafQueue w")
  case Nil
  assume "consistent w"
  with Nil show ?thesis by simp
next
  case (Cons e q)
  assume c: "consistent w"
  have ne: "rafQueue w \<noteq> [] \<or> intervals w \<noteq> [] \<or> visibilityListener w \<noteq> None"
    using Cons by simp
  define cl where "cl = Closure True (timeRemaining w)"
  define w' where "w' = w\<lparr>rafQueue := []\<rparr>"
  from consistent_armed [OF c ne] Cons
  have a: "isActive w" "0 < timeRemaining w" and e: "snd e = cl" and q: "q = []"
    by (auto simp: cl_def)
  have st: "step (now, RafFrame) w = commit now w (rafLoop cl now w')"
    using Cons e q by (cases e) (simp add: w'_def)
  have tw': "tracked w'"
    using consistent_tracked [OF c] by (simp add: tracked_def w'_def split: option.splits)
  have nh: "0 < nextHandle w'" "0 \<le> timeRemaining w'"
    using c by (simp_all add: consistent_iff w'_def)
  show ?thesis
    unfolding st
  proof (rule consistent_commit)
    show "tracked (rafLoop cl now w')"
      using tw' nh(1) by (intro tracked_rafLoop) (simp_all add: w'_def)
    show "0 \<le> timeRemaining (rafLoop cl now w')"
      using nh(2) by (simp add: updateTimer_nonneg)
    show "0 < nextHandle (rafLoop cl now w')"
      using nh(1) by (simp add: rafLoop_def Let_def updateTimer_fields)
    show "consistent (rafLoop cl now w')"
      if same: "isActive (rafLoop cl now w') = isActive w"
        "timeRemaining (rafLoop cl now w') = timeRemaining w"
    proof -
      have "updateTimer cl now w' = w'"
        using same a by (intro updateTimer_unchanged) (simp_all add: w'_def cl_def)
      then have "rafLoop cl now w' =
          w'\<lparr>rafIdRef := Some (nextHandle w'), rafQueue := rafQueue w' @ [(nextHandle w', cl)],
             nextHandle := nextHandle w' + 1\<rparr>"
        using a by (simp add: rafLoop_def Let_def cl_def)
      then show ?thesis
        using c a by (auto simp: consistent_iff w'_def cl_def)
    qed
  qed
qed

lemma consistent_step: "consistent w \<Longrightarrow> consistent (step e w)"
proof -
  assume c: "consistent w"
  obtain now a where e: "e = (now, a)" by (cases e)
  show ?thesis
    unfolding e using c
    by (cases a)
      (simp_all only: consistent_start consistent_pause consistent_reset consistent_raf
        consistent_interval consistent_visible)
qed

lemma consistent_run: "consistent w \<Longrightarrow> consistent (run evs w)"
  by (induction evs arbitrary: w) (simp_all add: consistent_step)

lemma consistent_mount: "consistent (mount now)"
  by (simp add: mount_def initial_def consistent_def countdownEffect_def titleEffect_def
      cancelTimers_def truthy_def Let_def)

lemma step_start_fields [simp]:
  "isActive (step (now, Start) w) = True"
  "timeRemaining (step (now, Start) w) = timeRemaining w"
  "timerEndRef (step (now, Start) w) = Some (now + timeRemaining w * 1000)"
  by (simp_all add: startTimer_def)

lemma step_pause_fields [simp]:
  "isActive (step (now, Pause) w) = False"
  "timeRemaining (step (now, Pause) w) = timeRemaining w"
  "timerEndRef (step (now, Pause) w) = timerEndRef w"
  by (simp_all add: pauseTimer_def)

lemma step_reset_fields [simp]:
  "isActive (step (now, Reset) w) = False"
  "timeRemaining (step (now, Reset) w) = 25 * 60"
  "timerEndRef (step (now, Reset) w) = None"
  by (simp_all add: resetTimer_def)

lemma step_tick_idle:
  assumes "consistent w" "isTick a" "\<not> (isActive w \<and> 0 < timeRemaining w)"
  shows "step (now, a) w = w"
  using assms by (cases a) (auto simp: consistent_iff)

lemma step_tick_commit:
  assumes c: "consistent w" and a: "isTick a" and r: "isActive w" "0 < timeRemaining w"
  shows "\<exists>new. step (now, a) w = commit now w new \<and>
           isActive new = isActive (updateTimer (Closure True (timeRemaining w)) now w) \<and>
           timeRemaining new = timeRemaining (updateTimer (Closure True (timeRemaining w)) now w) \<and>
           timerEndRef new = timerEndRef (updateTimer (Closure True (timeRemaining w)) now w)"
proof -
  from c r obtain h i where
    q: "rafQueue w = [(h, Closure True (timeRemaining w))]"
       "intervals w = [(i, Closure True (timeRemaining w))]"
       "visibilityListener w = Some (Closure True (timeRemaining w))"
    by (auto simp: consistent_iff)
  show ?thesis
  proof (cases a)
    case RafFrame
    have "step (now, a) w = commit now w (rafLoop (Closure True (timeRemaining w)) now (w\<lparr>rafQueue := []\<rparr>))"
      using RafFrame q by simp
    then show ?thesis
      by (intro exI [of _ "rafLoop (Closure True (timeRemaining w)) now (w\<lparr>rafQueue := []\<rparr>)"])
        (simp add: updateTimer_state)
  next
    case IntervalFire
    then show ?thesis using q by (intro exI [of _ "updateTimer (Closure True (timeRemaining w)) now w"]) simp
  next
    case BecameVisible
    then show ?thesis using q by (intro exI [of _ "updateTimer (Closure True (timeRemaining w)) now w"]) simp
  qed (use a in simp_all)
qed

lemma step_tick_running:
  assumes c: "consistent w" and a: "isTick a" and r: "isActive w" "0 < timeRemaining w"
  shows "timeRemaining (step (now, a) w) = ceilSeconds (max 0 (toNumber (timerEndRef w) - now))"
    "isActive (step (now, a) w) = (0 < ceilSeconds (max 0 (toNumber (timerEndRef w) - now)))"
    "timerEndRef (step (now, a) w) =
       (if ceilSeconds (max 0 (toNumber (timerEndRef w) - now)) \<le> 0 then None
        else if truthyTime (timerEndRef w) \<or>
                ceilSeconds (max 0 (toNumber (timerEndRef w) - now)) = timeRemaining w
        then timerEndRef w
        else Some (now + ceilSeconds (max 0 (toNumber (timerEndRef w) - now)) * 1000))"
proof -
  from step_tick_commit [OF c a r, of now] obtain new where
    n: "step (now, a) w = commit now w new"
       "isActive new = isActive (updateTimer (Closure True (timeRemaining w)) now w)"
       "timeRemaining new = timeRemaining (updateTimer (Closure True (timeRemaining w)) now w)"
       "timerEndRef new = timerEndRef (updateTimer (Closure True (timeRemaining w)) now w)"
    by blast
  show "timeRemaining (step (now, a) w) = ceilSeconds (max 0 (toNumber (timerEndRef w) - now))"
    by (simp add: n updateTimer_state)
  show "isActive (step (now, a) w) = (0 < ceilSeconds (max 0 (toNumber (timerEndRef w) - now)))"
    using r by (simp add: n updateTimer_state)
  show "timerEndRef (step (now, a) w) =
       (if ceilSeconds (max 0 (toNumber (timerEndRef w) - now)) \<le> 0 then None
        else if truthyTime (timerEndRef w) \<or>
                ceilSeconds (max 0 (toNumber (timerEndRef w) - now)) = timeRemaining w
        then timerEndRef w
        else Some (now + ceilSeconds (max 0 (toNumber (timerEndRef w) - now)) * 1000))"
    using r by (auto simp: n updateTimer_state)
qed

declare step.simps [simp del]

subsection \<open>Reading the deadline\<close>

lemma ceilSeconds_le_iff: "ceilSeconds x \<le> k \<longleftrightarrow> x \<le> 1000 * k"
  unfolding ceilSeconds_div by linarith

lemma ceilSeconds_pos_iff: "0 < ceilSeconds x \<longleftrightarrow> 0 < x"
  using ceilSeconds_le_iff [of x 0] by linarith

lemma ceilSeconds_mult [simp]: "ceilSeconds (1000 * k) = k"
  unfolding ceilSeconds_div by simp

lemma ceilSeconds_zero [simp]: "ceilSeconds 0 = 0"
  unfolding ceilSeconds_div by simp

lemma tick_keeps_deadline:
  assumes c: "consistent s" and d: "D \<noteq> 0" and a: "isTick a" and t: "t \<le> t'"
    and inv: "(isActive s \<and> 0 < timeRemaining s \<and> timerEndRef s = Some D) \<or>
              (timeRemaining s = 0 \<and> D \<le> t)"
  shows "(isActive (step (t', a) s) \<and> 0 < timeRemaining (step (t', a) s) \<and>
            timerEndRef (step (t', a) s) = Some D) \<or>
         (timeRemaining (step (t', a) s) = 0 \<and> D \<le> t')"
proof (cases "isActive s \<and> 0 < timeRemaining s")
  case True
  then have e: "timerEndRef s = Some D" using inv by auto
  note f = step_tick_running [OF c a, of t'] 
  show ?thesis
  proof (cases "0 < D - t'")
    case True
    then have "0 < ceilSeconds (max 0 (D - t'))" by (simp add: ceilSeconds_pos_iff)
    then show ?thesis
      using \<open>isActive s \<and> 0 < timeRemaining s\<close> d e
      by (simp add: f toNumber_def truthyTime_def)
  next
    case False
    then have "ceilSeconds (max 0 (D - t')) = 0" by (simp add: max_def)
    then show ?thesis
      using \<open>isActive s \<and> 0 < timeRemaining s\<close> False e
      by (simp add: f toNumber_def)
  qed
next
  case False
  then have "step (t', a) s = s" using step_tick_idle [OF c a] by blast
  then show ?thesis using False inv t by auto
qed

lemma ticks_keep_deadline:
  assumes "consistent s" "D \<noteq> 0" "ticksWithin t T evs"
    and "(isActive s \<and> 0 < timeRemaining s \<and> timerEndRef s = Some D) \<or>
         (timeRemaining s = 0 \<and> D \<le> t)"
  shows "consistent (run evs s) \<and>
         ((isActive (run evs s) \<and> 0 < timeRemaining (run evs s) \<and>
             timerEndRef (run evs s) = Some D) \<or>
          (timeRemaining (run evs s) = 0 \<and> D \<le> T))"
  using assms
proof (induction evs arbitrary: s t)
  case Nil
  then show ?case by auto
next
  case (Cons e evs)
  obtain t' a where e: "e = (t', a)" by (cases e)
  from Cons.prems(3) have ta: "t \<le> t'" "isTick a" "ticksWithin t' T evs"
    by (simp_all add: e)
  have c': "consistent (step (t', a) s)"
    by (rule consistent_step [OF Cons.prems(1)])
  have i': "(isActive (step (t', a) s) \<and> 0 < timeRemaining (step (t', a) s) \<and>
            timerEndRef (step (t', a) s) = Some D) \<or>
         (timeRemaining (step (t', a) s) = 0 \<and> D \<le> t')"
    by (rule tick_keeps_deadline [OF Cons.prems(1,2) ta(2,1) Cons.prems(4)])
  show ?case
    using Cons.IH [OF c' Cons.prems(2) ta(3) i'] by (simp add: e)
qed

lemma tick_reads_deadline:
  assumes c: "consistent s" and a: "isTick a"
    and inv: "(isActive s \<and> 0 < timeRemaining s \<and> timerEndRef s = Some D) \<or>
              (timeRemaining s = 0 \<and> D \<le> T)"
  shows "timeRemaining (step (T, a) s) = ceilSeconds (max 0 (D - T))"
proof (cases "isActive s \<and> 0 < timeRemaining s")
  case True
  then show ?thesis
    using inv step_tick_running(1) [OF c a, of T] by (auto simp: toNumber_def)
next
  case False
  then have "step (T, a) s = s" using step_tick_idle [OF c a] by blast
  then show ?thesis using False inv by (auto simp: max_def)
qed

lemma mount_fields [simp]:
  "isActive (mount now) = False"
  "timeRemaining (mount now) = 25 * 60"
  "timerEndRef (mount now) = None"
  "docTitle (mount now) = ''Pomodoro Timer''"
  by (simp_all add: mount_def initial_def titleEffect_def)

lemma ceilSeconds_eq_iff: "ceilSeconds x = k \<longleftrightarrow> 1000 * (k - 1) < x \<and> x \<le> 1000 * k"
  using ceilSeconds_le_iff [of x k] ceilSeconds_le_iff [of x "k - 1"] by linarith

lemma ceilSeconds_upper: "x \<le> 1000 * ceilSeconds x"
  using ceilSeconds_le_iff [of x "ceilSeconds x"] by simp

lemma tick_stops_clean:
  assumes c: "consistent s" and a: "isTick a"
    and r: "(if isActive s then 0 < timeRemaining s else timerEndRef s = None)"
  shows "(if isActive (step (t, a) s) then 0 < timeRemaining (step (t, a) s)
          else timerEndRef (step (t, a) s) = None)"
proof (cases "isActive s \<and> 0 < timeRemaining s")
  case True
  then show ?thesis
    using step_tick_running [OF c a, of t] by auto
next
  case False
  then have "step (t, a) s = s" using step_tick_idle [OF c a] by blast
  then show ?thesis using r by simp
qed

lemma ticks_stop_clean:
  assumes "consistent s" "ticksWithin t T evs"
    and "(if isActive s then 0 < timeRemaining s else timerEndRef s = None)"
  shows "(if isActive (run evs s) then 0 < timeRemaining (run evs s)
          else timerEndRef (run evs s) = None)"
  using assms
proof (induction evs arbitrary: s t)
  case Nil
  then show ?case by simp
next
  case (Cons e evs)
  obtain t' a where e: "e = (t', a)" by (cases e)
  from Cons.prems(2) have ta: "isTick a" "ticksWithin t' T evs"
    by (simp_all add: e)
  show ?case
    using Cons.IH [OF consistent_step [OF Cons.prems(1)] ta(2)
        tick_stops_clean [OF Cons.prems(1) ta(1) Cons.prems(3)], of t']
    by (simp add: e)
qed

lemma stopped_step:
  assumes "consistent s" "timeRemaining s = 0" "a \<noteq> Reset"
  shows "timeRemaining (step (t, a) s) = 0"
proof (cases "isTick a")
  case True
  then show ?thesis using step_tick_idle [OF assms(1) True, of t] assms(2) by simp
next
  case False
  then show ?thesis using assms(2,3) by (cases a) simp_all
qed

lemma stopped_run:
  assumes "consistent s" "timeRemaining s = 0" "noReset evs"
  shows "timeRemaining (run evs s) = 0"
  using assms
proof (induction evs arbitrary: s)
  case Nil
  then show ?case by simp
next
  case (Cons e evs)
  obtain t a where e: "e = (t, a)" by (cases e)
  from Cons.prems(3) have n: "a \<noteq> Reset" "noReset evs" by (simp_all add: e)
  show ?case
    using Cons.IH [OF consistent_step [OF Cons.prems(1)]
        stopped_step [OF Cons.prems(1,2) n(1)] n(2), of t]
    by (simp add: e)
qed

lemma consistent_idle:
  assumes "consistent s" "timeRemaining s = 0"
  shows "rafIdRef s = None" "intervalIdRef s = None" "rafQueue s = []" "intervals s = []"
    "visibilityListener s = None"
  using assms by (simp_all add: consistent_iff)

subsection \<open>The bound on the remaining time\<close>

lemma withinSession_step:
  assumes c: "consistent s" and b: "withinSession t s" and t: "t \<le> t'"
  shows "withinSession t' (step (t', a) s)"
proof (cases "isTick a")
  case False
  then show ?thesis
    using b by (cases a) (simp_all add: withinSession_def toNumber_def totalTime_def)
next
  case True
  show ?thesis
  proof (cases "isActive s \<and> 0 < timeRemaining s")
    case False
    then have "step (t', a) s = s" using step_tick_idle [OF c True] by blast
    then show ?thesis using b False by (auto simp: withinSession_def)
  next
    case run: True
    define x where "x = max 0 (toNumber (timerEndRef s) - t')"
    note f = step_tick_running [OF c True, of t', folded x_def]
    have d: "toNumber (timerEndRef s) \<le> t + 1000 * timeRemaining s" "timeRemaining s \<le> totalTime"
      using b run by (simp_all add: withinSession_def)
    have "x \<le> 1000 * timeRemaining s"
      using d(1) t run by (simp add: x_def)
    then have le: "ceilSeconds x \<le> timeRemaining s"
      by (simp add: ceilSeconds_le_iff)
    have up: "toNumber (timerEndRef s) \<le> t' + 1000 * ceilSeconds x"
      using ceilSeconds_upper [of x] by (simp add: x_def)
    show ?thesis
      using run le d(2) up
      by (simp add: withinSession_def f toNumber_def)
  qed
qed

lemma withinSession_run:
  assumes "consistent s" "withinSession t s" "clockForward t evs"
  shows "withinSession (last (t # map fst evs)) (run evs s)"
  using assms
proof (induction evs arbitrary: s t)
  case Nil
  then show ?case by simp
next
  case (Cons e evs)
  obtain t' a where e: "e = (t', a)" by (cases e)
  from Cons.prems(3) have ta: "t \<le> t'" "clockForward t' evs" by (simp_all add: e)
  show ?case
    using Cons.IH [OF consistent_step [OF Cons.prems(1)]
        withinSession_step [OF Cons.prems(1,2) ta(1)] ta(2), of a]
    by (simp add: e)
qed

subsection \<open>The title\<close>

lemma digitsOf_small: "n < 10 \<Longrightarrow> digitsOf n = [''0123456789'' ! n]"
  by (simp add: digitsOf.simps)

lemma digitsOf_two: "10 \<le> n \<Longrightarrow> n < 100 \<Longrightarrow> digitsOf n = twoDigits n"
  by (subst digitsOf.simps) (simp add: digitsOf_small twoDigits_def)

lemma digitsOf_nonempty: "0 < length (digitsOf n)"
  by (subst digitsOf.simps) simp

lemma digitsOf_long: "10 \<le> n \<Longrightarrow> 2 \<le> length (digitsOf n)"
  using digitsOf_nonempty [of "n div 10"] by (subst digitsOf.simps) (simp add: Suc_le_eq)

lemma padStart_digitsOf:
  "padStart 2 (CHR ''0'') (digitsOf n) = (if n < 100 then twoDigits n else digitsOf n)"
proof (cases "n < 10")
  case True
  then show ?thesis by (simp add: padStart_def digitsOf_small twoDigits_def)
next
  case False
  then have "2 \<le> length (digitsOf n)" by (simp add: digitsOf_long)
  then have "padStart 2 (CHR ''0'') (digitsOf n) = digitsOf n" by (simp add: padStart_def)
  then show ?thesis using False by (simp add: digitsOf_two)
qed

lemma formatTime_mmss: "0 \<le> r \<Longrightarrow> formatTime r = mmss r"
proof -
  assume r: "0 \<le> r"
  have m: "0 \<le> r div 60" using r by simp
  have j: "jsRem r 60 = r mod 60" using r by (simp add: jsRem_def sgn_if)
  have s: "nat (r mod 60) < 100"
    using pos_mod_bound [of 60 r] by linarith
  have nm: "nat (r div 60) < 100 \<longleftrightarrow> r div 60 < 100" using m by linarith
  have p: "\<not> r mod 60 < 0" by simp
  show ?thesis
    using m s p by (simp add: formatTime_def mmss_def Let_def j toStringInt_def padStart_digitsOf nm)
qed

lemma docTitle_titleEffect:
  "docTitle (titleEffect w) =
     (if \<not> isActive w \<and> timeRemaining w = 25 * 60 then ''Pomodoro Timer''
      else if \<not> isActive w then formatTime (timeRemaining w) @ '' - Paused''
      else formatTime (timeRemaining w) @ '' - Pomodoro'')"
  by (simp add: titleEffect_def)

lemma titled_commit:
  assumes "docTitle old = docTitle (titleEffect old)" "docTitle new = docTitle old"
  shows "docTitle (commit now old new) = docTitle (titleEffect (commit now old new))"
  using assms by (auto simp: commit_def docTitle_titleEffect)

lemma titled_step:
  assumes "docTitle w = docTitle (titleEffect w)"
  shows "docTitle (step e w) = docTitle (titleEffect (step e w))"
proof -
  obtain now a where e: "e = (now, a)" by (cases e)
  show ?thesis
  proof (cases a)
    case Start
    show ?thesis
      unfolding e Start step.simps by (intro titled_commit assms) (simp add: startTimer_def)
  next
    case Pause
    show ?thesis
      unfolding e Pause step.simps by (intro titled_commit assms) (simp add: pauseTimer_def)
  next
    case Reset
    show ?thesis
      unfolding e Reset step.simps by (intro titled_commit assms) (simp add: resetTimer_def)
  next
    case RafFrame
    show ?thesis
    proof (cases "rafQueue w")
      case Nil
      then show ?thesis using assms by (simp add: e RafFrame step.simps)
    next
      case (Cons p q)
      have "docTitle (commit now w (rafLoop (snd p) now (w\<lparr>rafQueue := q\<rparr>)))
          = docTitle (titleEffect (commit now w (rafLoop (snd p) now (w\<lparr>rafQueue := q\<rparr>))))"
        by (intro titled_commit assms) simp
      then show ?thesis using Cons by (cases p) (simp add: e RafFrame step.simps)
    qed
  next
    case IntervalFire
    show ?thesis
    proof (cases "intervals w")
      case Nil
      then show ?thesis using assms by (simp add: e IntervalFire step.simps)
    next
      case (Cons p q)
      have "docTitle (commit now w (updateTimer (snd p) now w))
          = docTitle (titleEffect (commit now w (updateTimer (snd p) now w)))"
        by (intro titled_commit assms) (simp add: updateTimer_fields)
      then show ?thesis using Cons by (cases p) (simp add: e IntervalFire step.simps)
    qed
  next
    case BecameVisible
    show ?thesis
    proof (cases "visibilityListener w")
      case None
      then show ?thesis using assms by (simp add: e BecameVisible step.simps)
    next
      case (Some c)
      have "docTitle (commit now w (updateTimer c now w))
          = docTitle (titleEffect (commit now w (updateTimer c now w)))"
        by (intro titled_commit assms) (simp add: updateTimer_fields)
      then show ?thesis using Some by (simp add: e BecameVisible step.simps)
    qed
  qed
qed

lemma titled_run:
  "docTitle w = docTitle (titleEffect w) \<Longrightarrow>
   docTitle (run evs w) = docTitle (titleEffect (run evs w))"
  by (induction evs arbitrary: w) (simp_all add: titled_step)

subsection \<open>The favicon links\<close>

lemma matchesIcon_icon [simp]: "matchesIcon (Link ''icon'' h s)"
  unfolding matchesIcon_def by code_simp

lemma matchesIcon_shortcut [simp]: "matchesIcon (Link ''shortcut icon'' h s)"
  unfolding matchesIcon_def by code_simp

lemma updateFaviconInBrowser_installs:
  assumes "draw a p 32 = Some f32" "draw a p 16 = Some f16"
    and "\<not> list_ex matchesIcon (otherLinks doc)"
  shows "filter matchesIcon (headLinks (updateFaviconInBrowser draw a p doc))
           = [Link ''icon'' f32 ''32x32'', Link ''icon'' f16 ''16x16'', Link ''shortcut icon'' f32 '''']"
    "filter (\<lambda>l. \<not> matchesIcon l) (headLinks (updateFaviconInBrowser draw a p doc))
           = filter (\<lambda>l. \<not> matchesIcon l) (headLinks doc)"
    "otherLinks (updateFaviconInBrowser draw a p doc) = otherLinks doc"
  using assms by (simp_all add: updateFaviconInBrowser_def Let_def)

section \<open>The claims\<close>

text \<open>
  Claim C1. A run segment is started at time \<open>t0\<close> with \<open>timeRemaining = r0\<close>. Whatever
  callbacks fire in between (any number, of any of the three kinds, also several at the same
  instant), at times that never go back, a callback that fires once \<open>N\<close> whole seconds have
  passed since the start (and the next second has not) leaves
  \<open>timeRemaining = max 0 (r0 - N)\<close>: \<open>updateTimer\<close> recomputes the value from the stored
  deadline and never counts calls. \<open>0 < t0\<close> says that \<open>Date.now()\<close> is after the epoch.
\<close>

theorem remaining_after_N_seconds:
  assumes "consistent w" and "0 < t0" and "ticksWithin t0 T evs" and "isTick a"
    and "t0 + 1000 * N \<le> T" and "T < t0 + 1000 * (N + 1)"
  shows "timeRemaining (step (T, a) (run evs (step (t0, Start) w)))
           = max 0 (timeRemaining w - N)"
proof -
  define D where "D = t0 + timeRemaining w * 1000"
  define s where "s = step (t0, Start) w"
  have r0: "0 \<le> timeRemaining w" using assms(1) by (simp add: consistent_iff)
  have d: "D \<noteq> 0" using r0 assms(2) by (simp add: D_def)
  have cs: "consistent s" unfolding s_def by (rule consistent_step [OF assms(1)])
  have inv: "(isActive s \<and> 0 < timeRemaining s \<and> timerEndRef s = Some D) \<or>
         (timeRemaining s = 0 \<and> D \<le> t0)"
    using r0 by (auto simp: s_def D_def)
  from ticks_keep_deadline [OF cs d assms(3) inv]
  have k: "consistent (run evs s)"
    "(isActive (run evs s) \<and> 0 < timeRemaining (run evs s) \<and>
             timerEndRef (run evs s) = Some D) \<or>
          (timeRemaining (run evs s) = 0 \<and> D \<le> T)"
    by blast+
  have "timeRemaining (step (T, a) (run evs s)) = ceilSeconds (max 0 (D - T))"
    by (rule tick_reads_deadline [OF k(1) assms(4) k(2)])
  also have "ceilSeconds (max 0 (D - T)) = max 0 (timeRemaining w - N)"
  proof (cases "N < timeRemaining w")
    case True
    then show ?thesis
      using assms(5,6) by (simp add: ceilSeconds_eq_iff D_def max_def)
  next
    case False
    then have "D - T \<le> 0" using assms(5) by (simp add: D_def)
    then show ?thesis using False by (simp add: max_def)
  qed
  finally show ?thesis by (simp add: s_def)
qed

theorem remaining_after_N_seconds_witness:
  "consistent (mount 0) \<and> (0::int) < 1000 \<and>
   ticksWithin 1000 11016
     [(1016, RafFrame), (2000, IntervalFire), (2000, RafFrame), (9500, BecameVisible)] \<and>
   isTick RafFrame \<and> (1000::int) + 1000 * 10 \<le> 11016 \<and> (11016::int) < 1000 + 1000 * (10 + 1) \<and>
   timeRemaining (step (11016, RafFrame)
     (run [(1016, RafFrame), (2000, IntervalFire), (2000, RafFrame), (9500, BecameVisible)]
        (step (1000, Start) (mount 0)))) = 1490"
proof -
  have h: "ticksWithin 1000 11016
     [(1016, RafFrame), (2000, IntervalFire), (2000, RafFrame), (9500, BecameVisible)]"
    by simp
  show ?thesis
    using remaining_after_N_seconds [OF consistent_mount [of 0] _ h, of RafFrame 10] h
    by (simp add: consistent_mount)
qed

text \<open>
  Claim C6. The session is 1500 seconds long. After \<open>Start\<close> at \<open>t0\<close> and any callbacks in
  between, the callback that fires 1500 seconds or more after the start computes 0: it sets
  \<open>isActive\<close> to false and clears \<open>timerEndRef\<close>, and once React has committed nothing is
  pending any more (no animation frame, no interval, no visibility listener), also when the
  callback was \<open>rafLoop\<close>, which re-arms itself from its stale closure before the effect's
  clean-up cancels that request. From this state no event but \<open>Reset\<close> moves
  \<open>timeRemaining\<close> off 0 or arms a callback.
\<close>

theorem zero_is_terminal:
  assumes "0 < t0" and "ticksWithin t0 T evs" and "isTick a"
    and "t0 + 1500 * 1000 \<le> T" and "noReset later"
  shows "timeRemaining (mount m) = 1500 \<and>
         \<not> isActive (step (T, a) (run evs (step (t0, Start) (mount m)))) \<and>
         timeRemaining (step (T, a) (run evs (step (t0, Start) (mount m)))) = 0 \<and>
         timerEndRef (step (T, a) (run evs (step (t0, Start) (mount m)))) = None \<and>
         rafIdRef (step (T, a) (run evs (step (t0, Start) (mount m)))) = None \<and>
         intervalIdRef (step (T, a) (run evs (step (t0, Start) (mount m)))) = None \<and>
         rafQueue (step (T, a) (run evs (step (t0, Start) (mount m)))) = [] \<and>
         intervals (step (T, a) (run evs (step (t0, Start) (mount m)))) = [] \<and>
         visibilityListener (step (T, a) (run evs (step (t0, Start) (mount m)))) = None \<and>
         timeRemaining (run later (step (T, a) (run evs (step (t0, Start) (mount m))))) = 0 \<and>
         rafQueue (run later (step (T, a) (run evs (step (t0, Start) (mount m))))) = [] \<and>
         intervals (run later (step (T, a) (run evs (step (t0, Start) (mount m))))) = []"
proof -
  define D where "D = t0 + 1500 * 1000"
  define s0 where "s0 = step (t0, Start) (mount m)"
  define s where "s = step (T, a) (run evs s0)"
  have c0: "consistent s0" unfolding s0_def by (rule consistent_step [OF consistent_mount])
  have c1: "consistent (run evs s0)" by (rule consistent_run [OF c0])
  have c: "consistent s" unfolding s_def by (rule consistent_step [OF c1])
  have r0: "(if isActive s0 then 0 < timeRemaining s0 else timerEndRef s0 = None)"
    by (simp add: s0_def)
  have r: "(if isActive s then 0 < timeRemaining s else timerEndRef s = None)"
    unfolding s_def
    by (rule tick_stops_clean [OF c1 assms(3) ticks_stop_clean [OF c0 assms(2) r0]])
  have d: "D \<noteq> 0" using assms(1) by (simp add: D_def)
  have inv0: "(isActive s0 \<and> 0 < timeRemaining s0 \<and> timerEndRef s0 = Some D) \<or>
         (timeRemaining s0 = 0 \<and> D \<le> t0)"
    by (simp add: s0_def D_def)
  from ticks_keep_deadline [OF c0 d assms(2) inv0]
  have k: "(isActive (run evs s0) \<and> 0 < timeRemaining (run evs s0) \<and>
             timerEndRef (run evs s0) = Some D) \<or>
          (timeRemaining (run evs s0) = 0 \<and> D \<le> T)"
    by blast
  have "timeRemaining s = ceilSeconds (max 0 (D - T))"
    unfolding s_def by (rule tick_reads_deadline [OF c1 assms(3) k])
  then have z: "timeRemaining s = 0"
    using assms(4) by (simp add: D_def max_def)
  have na: "\<not> isActive s" "timerEndRef s = None"
    using r z by (auto split: if_splits)
  have cl: "consistent (run later s)" by (rule consistent_run [OF c])
  have zl: "timeRemaining (run later s) = 0" by (rule stopped_run [OF c z assms(5)])
  show ?thesis
    using z na consistent_idle [OF c z] zl consistent_idle(3,4) [OF cl zl]
    by (simp add: s_def s0_def)
qed

theorem zero_is_terminal_witness:
  "(0::int) < 1000 \<and> ticksWithin 1000 1501000 [(1016, RafFrame), (751000, IntervalFire)] \<and>
   isTick RafFrame \<and> (1000::int) + 1500 * 1000 \<le> 1501000 \<and>
   noReset [(1501016, RafFrame), (1600000, Start), (1600500, IntervalFire), (1700000, Pause)] \<and>
   \<not> isActive (step (1501000, RafFrame)
       (run [(1016, RafFrame), (751000, IntervalFire)] (step (1000, Start) (mount 0)))) \<and>
   timeRemaining (step (1501000, RafFrame)
       (run [(1016, RafFrame), (751000, IntervalFire)] (step (1000, Start) (mount 0)))) = 0 \<and>
   rafQueue (step (1501000, RafFrame)
       (run [(1016, RafFrame), (751000, IntervalFire)] (step (1000, Start) (mount 0)))) = [] \<and>
   intervals (step (1501000, RafFrame)
       (run [(1016, RafFrame), (751000, IntervalFire)] (step (1000, Start) (mount 0)))) = [] \<and>
   timeRemaining (run [(1501016, RafFrame), (1600000, Start), (1600500, IntervalFire), (1700000, Pause)]
     (step (1501000, RafFrame)
       (run [(1016, RafFrame), (751000, IntervalFire)] (step (1000, Start) (mount 0))))) = 0"
proof -
  have h: "ticksWithin 1000 1501000 [(1016, RafFrame), (751000, IntervalFire)]"
    "noReset [(1501016, RafFrame), (1600000, Start), (1600500, IntervalFire), (1700000, Pause)]"
    by simp_all
  show ?thesis
    using zero_is_terminal [OF _ h(1) _ _ h(2), of RafFrame 0] h
    by simp
qed

text \<open>
  Claim C8. From any running state, \<open>Pause\<close> keeps \<open>timeRemaining\<close>, the following \<open>Start\<close>
  keeps it, and the first callback after the resume, firing less than a second after it,
  computes the same value again: the pair loses and gains no whole second.
\<close>

theorem pause_resume_keeps_remaining:
  assumes "consistent w" and "isActive w" and "isTick a" and "t2 \<le> t3" and "t3 < t2 + 1000"
  shows "timeRemaining (step (t1, Pause) w) = timeRemaining w \<and>
         timeRemaining (step (t2, Start) (step (t1, Pause) w)) = timeRemaining w \<and>
         timeRemaining (step (t3, a) (step (t2, Start) (step (t1, Pause) w))) = timeRemaining w"
proof -
  define s where "s = step (t2, Start) (step (t1, Pause) w)"
  have c: "consistent s"
    unfolding s_def by (intro consistent_step assms(1))
  have f: "isActive s" "timeRemaining s = timeRemaining w"
    "timerEndRef s = Some (t2 + timeRemaining w * 1000)"
    by (simp_all add: s_def)
  have "timeRemaining (step (t3, a) s) = timeRemaining w"
  proof (cases "0 < timeRemaining w")
    case True
    have "timeRemaining (step (t3, a) s)
            = ceilSeconds (max 0 (t2 + timeRemaining w * 1000 - t3))"
      using step_tick_running(1) [OF c assms(3), of t3] True f by (simp add: toNumber_def)
    also have "\<dots> = timeRemaining w"
      using True assms(4,5) by (simp add: ceilSeconds_eq_iff max_def)
    finally show ?thesis .
  next
    case False
    then have "step (t3, a) s = s"
      using step_tick_idle [OF c assms(3), of t3] f by simp
    then show ?thesis using f by simp
  qed
  then show ?thesis by (simp add: s_def)
qed

theorem pause_resume_keeps_remaining_witness:
  "consistent (run [(1000, Start), (11000, IntervalFire)] (mount 0)) \<and>
   isActive (run [(1000, Start), (11000, IntervalFire)] (mount 0)) \<and>
   isTick RafFrame \<and> (12000::int) \<le> 12016 \<and> (12016::int) < 12000 + 1000 \<and>
   timeRemaining (run [(1000, Start), (11000, IntervalFire)] (mount 0)) = 1490 \<and>
   timeRemaining (step (12016, RafFrame) (step (12000, Start) (step (11400, Pause)
      (run [(1000, Start), (11000, IntervalFire)] (mount 0))))) = 1490"
proof -
  have c: "consistent (run [(1000, Start), (11000, IntervalFire)] (mount 0))"
    by (rule consistent_run [OF consistent_mount])
  have c1: "consistent (step (1000, Start) (mount 0))"
    by (rule consistent_step [OF consistent_mount])
  have v: "timeRemaining (run [(1000, Start), (11000, IntervalFire)] (mount 0)) = 1490"
    "isActive (run [(1000, Start), (11000, IntervalFire)] (mount 0))"
    using step_tick_running(1,2) [OF c1, of IntervalFire 11000]
    by (simp_all add: toNumber_def ceilSeconds_div)
  show ?thesis
    using pause_resume_keeps_remaining [OF c v(2), of RafFrame 12000 12016 11400] c v
    by simp
qed

text \<open>
  Claim C10. If the times at which the events happen never go back, every state reached from
  the mounted component by \<open>Start\<close>, \<open>Pause\<close>, \<open>Reset\<close> and the timer callbacks, in any order
  (also \<open>Start\<close> while running), has \<open>0 \<le> timeRemaining \<le> 1500\<close>. The code never clamps
  from above: the bound holds because a deadline is set to \<open>now + timeRemaining * 1000\<close> and
  read back later.
\<close>

theorem remaining_within_session:
  assumes "clockForward t evs"
  shows "0 \<le> timeRemaining (run evs (mount m)) \<and> timeRemaining (run evs (mount m)) \<le> totalTime"
proof -
  have b: "withinSession t (mount m)"
    by (simp add: withinSession_def totalTime_def)
  have "withinSession (last (t # map fst evs)) (run evs (mount m))"
    by (rule withinSession_run [OF consistent_mount b assms])
  moreover have "consistent (run evs (mount m))"
    by (rule consistent_run [OF consistent_mount])
  ultimately show ?thesis
    by (simp add: withinSession_def consistent_iff)
qed

theorem remaining_within_session_witness:
  "clockForward 0 [(1000, Start), (1016, RafFrame), (5000, Start), (6000, IntervalFire),
      (6000, Pause), (7000, Start), (9000, BecameVisible)] \<and>
   0 \<le> timeRemaining (run [(1000, Start), (1016, RafFrame), (5000, Start), (6000, IntervalFire),
      (6000, Pause), (7000, Start), (9000, BecameVisible)] (mount 0)) \<and>
   timeRemaining (run [(1000, Start), (1016, RafFrame), (5000, Start), (6000, IntervalFire),
      (6000, Pause), (7000, Start), (9000, BecameVisible)] (mount 0)) \<le> totalTime"
proof -
  have h: "clockForward 0 [(1000, Start), (1016, RafFrame), (5000, Start), (6000, IntervalFire),
      (6000, Pause), (7000, Start), (9000, BecameVisible)]"
    by simp
  show ?thesis
    using remaining_within_session [OF h, of 0] h by simp
qed

text \<open>
  Claim C7. In every state reached from the mounted component, \<open>document.title\<close> is the
  title the specification gives for \<open>isActive\<close> and \<open>timeRemaining\<close>: the code's
  \<open>toString\<close>, \<open>padStart\<close> and \<open>%\<close> produce the zero-padded minutes and seconds. Starting,
  running for ten seconds and pausing gives \<open>24:50 - Paused\<close>.
\<close>

theorem title_determined_by_state:
  "docTitle (run evs (mount m))
     = titleSpec (isActive (run evs (mount m))) (timeRemaining (run evs (mount m))) \<and>
   timeRemaining (run [(1000, Start), (11000, IntervalFire), (11500, Pause)] (mount 0)) = 1490 \<and>
   docTitle (run [(1000, Start), (11000, IntervalFire), (11500, Pause)] (mount 0))
     = ''24:50 - Paused''"
proof -
  have t0: "docTitle (mount m) = docTitle (titleEffect (mount m))"
    by (simp add: docTitle_titleEffect)
  have nn: "0 \<le> timeRemaining (run evs (mount m))"
    using consistent_run [OF consistent_mount, of evs m] by (simp add: consistent_iff)
  have "docTitle (run evs (mount m)) = docTitle (titleEffect (run evs (mount m)))"
    by (rule titled_run [OF t0])
  then have g: "docTitle (run evs (mount m))
     = titleSpec (isActive (run evs (mount m))) (timeRemaining (run evs (mount m)))"
    using nn by (simp add: docTitle_titleEffect titleSpec_def totalTime_def formatTime_mmss)
  have e1: "timeRemaining (run [(1000, Start), (11000, IntervalFire), (11500, Pause)] (mount 0)) = 1490"
    by code_simp
  have e2: "docTitle (run [(1000, Start), (11000, IntervalFire), (11500, Pause)] (mount 0))
     = ''24:50 - Paused''"
    by code_simp
  show ?thesis using g e1 e2 by blast
qed

text \<open>
  Claim C2 does not hold on the code: \<open>startTimer\<close> has no guard for \<open>timeRemaining = 0\<close>.
  After the countdown has run to zero and stopped itself (\<open>Start\<close> at 1000, the interval
  callback at 1501000) the page shows the Start control again. \<open>Start\<close> at 1600000 is then
  no no-op: it sets \<open>isActive\<close> to true and stores the deadline 1600000, while the countdown
  effect, whose guard is \<open>isActive && timeRemaining > 0\<close>, arms nothing; the title becomes
  \<open>00:00 - Pomodoro\<close> and \<open>timeRemaining\<close> stays 0.
\<close>

theorem start_at_zero_sets_active:
  "\<not> isActive (run [(1000, Start), (1501000, IntervalFire)] (mount 0)) \<and>
   timeRemaining (run [(1000, Start), (1501000, IntervalFire)] (mount 0)) = 0 \<and>
   timerEndRef (run [(1000, Start), (1501000, IntervalFire)] (mount 0)) = None \<and>
   docTitle (run [(1000, Start), (1501000, IntervalFire)] (mount 0)) = ''00:00 - Paused'' \<and>
   isActive (run [(1000, Start), (1501000, IntervalFire), (1600000, Start)] (mount 0)) \<and>
   timeRemaining (run [(1000, Start), (1501000, IntervalFire), (1600000, Start)] (mount 0)) = 0 \<and>
   timerEndRef (run [(1000, Start), (1501000, IntervalFire), (1600000, Start)] (mount 0))
     = Some 1600000 \<and>
   rafQueue (run [(1000, Start), (1501000, IntervalFire), (1600000, Start)] (mount 0)) = [] \<and>
   intervals (run [(1000, Start), (1501000, IntervalFire), (1600000, Start)] (mount 0)) = [] \<and>
   docTitle (run [(1000, Start), (1501000, IntervalFire), (1600000, Start)] (mount 0))
     = ''00:00 - Pomodoro'' \<and>
   run [(1000, Start), (1501000, IntervalFire), (1600000, Start)] (mount 0)
     \<noteq> run [(1000, Start), (1501000, IntervalFire)] (mount 0)"
proof -
  have b1: "\<not> isActive (run [(1000, Start), (1501000, IntervalFire)] (mount 0))"
    by code_simp
  have b2: "timeRemaining (run [(1000, Start), (1501000, IntervalFire)] (mount 0)) = 0"
    by code_simp
  have b3: "timerEndRef (run [(1000, Start), (1501000, IntervalFire)] (mount 0)) = None"
    by code_simp
  have b4: "docTitle (run [(1000, Start), (1501000, IntervalFire)] (mount 0)) = ''00:00 - Paused''"
    by code_simp
  have c1: "isActive (run [(1000, Start), (1501000, IntervalFire), (1600000, Start)] (mount 0))"
    by code_simp
  have c2: "timeRemaining (run [(1000, Start), (1501000, IntervalFire), (1600000, Start)] (mount 0)) = 0"
    by code_simp
  have c3: "timerEndRef (run [(1000, Start), (1501000, IntervalFire), (1600000, Start)] (mount 0))
     = Some 1600000"
    by code_simp
  have c4: "rafQueue (run [(1000, Start), (1501000, IntervalFire), (1600000, Start)] (mount 0)) = []"
    by code_simp
  have c5: "intervals (run [(1000, Start), (1501000, IntervalFire), (1600000, Start)] (mount 0)) = []"
    by code_simp
  have c6: "docTitle (run [(1000, Start), (1501000, IntervalFire), (1600000, Start)] (mount 0))
     = ''00:00 - Pomodoro''"
    by code_simp
  have n: "run [(1000, Start), (1501000, IntervalFire), (1600000, Start)] (mount 0)
     \<noteq> run [(1000, Start), (1501000, IntervalFire)] (mount 0)"
  proof
    assume "run [(1000, Start), (1501000, IntervalFire), (1600000, Start)] (mount 0)
     = run [(1000, Start), (1501000, IntervalFire)] (mount 0)"
    then have "isActive (run [(1000, Start), (1501000, IntervalFire), (1600000, Start)] (mount 0))
     = isActive (run [(1000, Start), (1501000, IntervalFire)] (mount 0))"
      by (rule arg_cong)
    then show False using b1 c1 by blast
  qed
  show ?thesis using b1 b2 b3 b4 c1 c2 c3 c4 c5 c6 n by blast
qed

text \<open>
  Claim C3 does not hold on the code: \<open>pauseTimer\<close> only sets \<open>isActive\<close> to false and leaves
  \<open>timerEndRef\<close> as it is, although its own comment says the end time is cleared. After
  \<open>Start\<close> at 1000 and \<open>Pause\<close> at 4000 the timer is not running and the deadline 1501000 is
  still stored.
\<close>

theorem pause_keeps_deadline:
  "\<not> isActive (run [(1000, Start), (4000, Pause)] (mount 0)) \<and>
   timeRemaining (run [(1000, Start), (4000, Pause)] (mount 0)) = 1500 \<and>
   timerEndRef (run [(1000, Start), (4000, Pause)] (mount 0)) = Some 1501000 \<and>
   timerEndRef (pauseTimer (step (1000, Start) (mount 0))) = Some 1501000"
  by (simp add: pauseTimer_def)

text \<open>
  Claim C5. With no time elapsed (\<open>timeRemaining = totalTime\<close>, progress 0) the polygon is
  the centre, the 12 o'clock point, the sweep vertex on the top edge, which coincides with the
  12 o'clock point, and four vertices at the centre: it encloses no area. With all time
  elapsed (\<open>timeRemaining = 0\<close>, progress 1) the vertices are the centre, the 12 o'clock point,
  the four corners in clockwise order and the 12 o'clock point again: the polygon encloses the
  whole box, 100 by 100, and so the whole ring.
\<close>

theorem clip_path_endpoints:
  "progressOf totalTime = 0 \<and>
   getProgressClipPath 0 = [(50, 50), (50, 0), (50, 0), (50, 50), (50, 50), (50, 50), (50, 50)] \<and>
   polygonArea (getProgressClipPath 0) = 0 \<and>
   progressOf 0 = 1 \<and>
   getProgressClipPath 1 = [(50, 50), (50, 0), (100, 0), (100, 100), (0, 100), (0, 0), (50, 0)] \<and>
   polygonArea (getProgressClipPath 1) = 100 * 100"
proof -
  have p0: "getProgressClipPath 0
      = [(50, 50), (50, 0), (50, 0), (50, 50), (50, 50), (50, 50), (50, 50)]"
    by (simp add: getProgressClipPath_def)
  have p1: "getProgressClipPath 1
      = [(50, 50), (50, 0), (100, 0), (100, 100), (0, 100), (0, 0), (50, 0)]"
    by (simp add: getProgressClipPath_def)
  have a0: "polygonArea (getProgressClipPath 0) = 0"
    unfolding p0 by (simp add: polygonArea_def)
  have a1: "polygonArea (getProgressClipPath 1) = 100 * 100"
    unfolding p1 by (simp add: polygonArea_def)
  have q: "progressOf totalTime = 0" "progressOf 0 = 1"
    by (simp_all add: progressOf_def totalTime_def)
  show ?thesis using p0 p1 a0 a1 q by blast
qed

text \<open>
  Claim C4 does not hold on the code. On the right edge the code computes
  \<open>50 - 50 * tan ((progress - 0.25) * 2 * pi)\<close>, which runs from the bottom corner up to the
  top corner as progress grows; a clockwise sweep runs down. At progress 0.375 the tangent
  rule gives the top right corner \<open>(100, 0)\<close>, the polygon is the triangle of progress 0.125
  (area 1250 of 10000), and as soon as progress exceeds 0.375 the vertex is pinned to the
  bottom right corner \<open>(100, 100)\<close>. In the running application progress is
  \<open>1 - timeRemaining / 1500\<close>: from \<open>timeRemaining = 938\<close> to \<open>937\<close> the vertex jumps from
  the upper half of the right edge to the bottom corner. The bottom edge is right: at 0.625
  the tangent rule gives the corner \<open>(0, 100)\<close>, and at 0.5 the vertex \<open>(50, 100)\<close>.
\<close>

theorem clip_path_jumps_at_threshold:
  "getProgressClipPath 0.375
     = [(50, 50), (50, 0), (100, 0), (100, 0), (50, 50), (50, 50), (50, 50)] \<and>
   polygonArea (getProgressClipPath 0.375) = 1250 \<and>
   progressOf 938 < 0.375 \<and>
   fst (getProgressClipPath (progressOf 938) ! 3) = 100 \<and>
   snd (getProgressClipPath (progressOf 938) ! 3) < 50 \<and>
   0.375 < progressOf 937 \<and>
   getProgressClipPath (progressOf 937) ! 3 = (100, 100) \<and>
   getProgressClipPath 0.625 ! 4 = (0, 100) \<and>
   getProgressClipPath 0.5 ! 4 = (50, 100)"
proof -
  have t: "tan (pi / 4) = 1" by (rule tan_45)
  have e1: "(0.375 - 0.25) * 2 * pi = pi / 4" by simp
  have p: "getProgressClipPath 0.375
     = [(50, 50), (50, 0), (100, 0), (100, 0), (50, 50), (50, 50), (50, 50)]"
    by (simp add: getProgressClipPath_def e1 t)
  have a: "polygonArea (getProgressClipPath 0.375) = 1250"
    unfolding p by (simp add: polygonArea_def)
  have q8: "progressOf 938 = 562 / 1500" and q7: "progressOf 937 = 563 / 1500"
    by (simp_all add: progressOf_def totalTime_def)
  have ang: "(562 / 1500 - 0.25) * 2 * pi = 187 * pi / 750" by simp
  have "0 < tan (187 * pi / 750)"
    by (rule tan_gt_zero) (use pi_gt_zero in simp_all)
  then have v8: "getProgressClipPath (progressOf 938) ! 3
      = (100, 50 - 50 * tan (187 * pi / 750))" "50 - 50 * tan (187 * pi / 750) < 50"
    by (simp_all add: q8 getProgressClipPath_def ang)
  have v7: "getProgressClipPath (progressOf 937) ! 3 = (100, 100)"
    by (simp add: q7 getProgressClipPath_def)
  have e2: "(0.625 - 0.5) * 2 * pi = pi / 4" by simp
  have b: "getProgressClipPath 0.625 ! 4 = (0, 100)"
    by (simp add: getProgressClipPath_def e2 t)
  have h: "getProgressClipPath 0.5 ! 4 = (50, 100)"
    by (simp add: getProgressClipPath_def)
  have lt: "progressOf 938 < 0.375" "0.375 < progressOf 937"
    by (simp_all add: q8 q7)
  show ?thesis using p a lt v8 v7 b h by simp
qed

text \<open>
  Claim C9. Whatever links the head holds before, after the primary attempt and after each
  of the two retries the links of the head whose \<open>rel\<close> contains \<open>icon\<close> are exactly three:
  \<open>icon\<close> 32x32, \<open>icon\<close> 16x16 and \<open>shortcut icon\<close> with the 32x32 image; the other links of
  the head are kept. This is for attempts that run to their end: the drawing succeeds and no
  matching link sits outside the head (an attempt that throws is caught and installs nothing).
\<close>

theorem favicon_exactly_three:
  assumes "draw a p 32 = Some f32" and "draw a p 16 = Some f16"
    and "\<not> list_ex matchesIcon (otherLinks doc)"
  shows "map (\<lambda>d. filter matchesIcon (headLinks d)) (faviconAttempts draw a p doc)
           = replicate 3 [Link ''icon'' f32 ''32x32'', Link ''icon'' f16 ''16x16'',
                          Link ''shortcut icon'' f32 ''''] \<and>
         map (\<lambda>d. length (filter matchesIcon (headLinks d))) (faviconAttempts draw a p doc)
           = [3, 3, 3] \<and>
         map (\<lambda>d. filter (\<lambda>l. \<not> matchesIcon l) (headLinks d)) (faviconAttempts draw a p doc)
           = replicate 3 (filter (\<lambda>l. \<not> matchesIcon l) (headLinks doc))"
proof -
  define d1 where "d1 = updateFaviconInBrowser draw a p doc"
  define d2 where "d2 = updateFaviconInBrowser draw a p d1"
  define d3 where "d3 = updateFaviconInBrowser draw a p d2"
  note i1 = updateFaviconInBrowser_installs
    [where draw = draw and a = a and p = p and doc = doc, OF assms, folded d1_def]
  have o1: "\<not> list_ex matchesIcon (otherLinks d1)" using assms(3) i1(3) by simp
  note i2 = updateFaviconInBrowser_installs
    [where draw = draw and a = a and p = p and doc = d1, OF assms(1,2) o1, folded d2_def]
  have o2: "\<not> list_ex matchesIcon (otherLinks d2)" using o1 i2(3) by simp
  note i3 = updateFaviconInBrowser_installs
    [where draw = draw and a = a and p = p and doc = d2, OF assms(1,2) o2, folded d3_def]
  have f: "faviconAttempts draw a p doc = [d1, d2, d3]"
    by (simp add: faviconAttempts_def Let_def d1_def d2_def d3_def)
  show ?thesis
    unfolding f by (simp add: i1 i2 i3 numeral_3_eq_3)
qed

theorem favicon_exactly_three_witness:
  "(\<lambda>r q n. Some (if n = 32 then ''data:32'' else ''data:16'')) True (1/2 :: real) (32 :: nat) = Some ''data:32'' \<and>
   (\<lambda>r q n. Some (if n = 32 then ''data:32'' else ''data:16'')) True (1/2 :: real) (16 :: nat) = Some ''data:16'' \<and>
   \<not> list_ex matchesIcon (otherLinks \<lparr>headLinks = [Link ''icon'' ''/vite.svg'' '''',
        Link ''stylesheet'' ''/app.css'' '''', Link ''apple-touch-icon'' ''/a.png'' ''''],
        otherLinks = [Link ''stylesheet'' ''/late.css'' '''']\<rparr>) \<and>
   map (\<lambda>d. filter matchesIcon (headLinks d))
     (faviconAttempts (\<lambda>r q n. Some (if n = 32 then ''data:32'' else ''data:16'')) True (1/2)
        \<lparr>headLinks = [Link ''icon'' ''/vite.svg'' '''',
        Link ''stylesheet'' ''/app.css'' '''', Link ''apple-touch-icon'' ''/a.png'' ''''],
        otherLinks = [Link ''stylesheet'' ''/late.css'' '''']\<rparr>)
     = replicate 3 [Link ''icon'' ''data:32'' ''32x32'', Link ''icon'' ''data:16'' ''16x16'',
                    Link ''shortcut icon'' ''data:32'' '''']"
proof -
  have o: "\<not> list_ex matchesIcon (otherLinks \<lparr>headLinks = [Link ''icon'' ''/vite.svg'' '''',
        Link ''stylesheet'' ''/app.css'' '''', Link ''apple-touch-icon'' ''/a.png'' ''''],
        otherLinks = [Link ''stylesheet'' ''/late.css'' '''']\<rparr>)"
    unfolding matchesIcon_def by code_simp
  show ?thesis
    using favicon_exactly_three
      [where draw = "\<lambda>r q n. Some (if n = 32 then ''data:32'' else ''data:16'')"
         and a = True and p = "1/2" and ?f32.0 = "''data:32''" and ?f16.0 = "''data:16''", OF _ _ o] o
    by simp
qed

end
